theory Spec2Isabelle
  imports Main "HOL-Library.AList" "HOL-Library.Word"
begin

section \<open>JavaScript values and containers\<close>

text \<open>
  The collaboration hub of \<^verbatim>\<open>backend/src/services/websocketService.ts\<close> keeps two
  JavaScript \<^verbatim>\<open>Map\<close>s and relays JSON objects between sockets. A \<^verbatim>\<open>Map\<close> is modelled
  as an association list in insertion order, a \<^verbatim>\<open>Set\<close> as a list in insertion order,
  and a JSON object as an association list of its own properties. Console output is
  not part of the model.

  Property values are strings, booleans and the integers from \<open>- 2 ^ 53\<close> to
  \<open>2 ^ 53 - 1\<close>, each of which a JavaScript number holds exactly: a \<open>54 word\<close> read as a
  signed number.
\<close>

datatype jsval = JStr string | JNum "54 word" | JBool bool

type_synonym jsobj = "(string \<times> jsval) list"

text \<open>\<^verbatim>\<open>Map.prototype.get\<close>, \<^verbatim>\<open>set\<close> and \<^verbatim>\<open>delete\<close>; \<^verbatim>\<open>set\<close> on a present key keeps its place.\<close>

definition map_get :: "('k \<times> 'v) list \<Rightarrow> 'k \<Rightarrow> 'v option" where
  "map_get m k = map_of m k"

definition map_set :: "'k \<Rightarrow> 'v \<Rightarrow> ('k \<times> 'v) list \<Rightarrow> ('k \<times> 'v) list" where
  "map_set k v m = AList.update k v m"

definition map_delete :: "'k \<Rightarrow> ('k \<times> 'v) list \<Rightarrow> ('k \<times> 'v) list" where
  "map_delete k m = AList.delete k m"

text \<open>\<^verbatim>\<open>Set.prototype.add\<close> and \<^verbatim>\<open>delete\<close>.\<close>

definition set_add :: "'a \<Rightarrow> 'a list \<Rightarrow> 'a list" where
  "set_add x xs = (if x \<in> set xs then xs else xs @ [x])"

definition set_delete :: "'a \<Rightarrow> 'a list \<Rightarrow> 'a list" where
  "set_delete x xs = removeAll x xs"

text \<open>
  The text a template literal \<^verbatim>\<open>`${v}`\<close> gives for a property value: a string is
  itself, a missing property reads \<^verbatim>\<open>undefined\<close>, a boolean prints as \<^verbatim>\<open>true\<close> or
  \<^verbatim>\<open>false\<close>, and an integer of the range above prints in decimal digits (JavaScript
  turns to exponent notation only from \<open>10 ^ 21\<close> on).
\<close>

function dec :: "nat \<Rightarrow> string" where
  "dec n = (if n < 10 then [''0123456789'' ! n]
            else dec (n div 10) @ [''0123456789'' ! (n mod 10)])"
  by pat_completeness auto
termination
  by (relation "measure id") auto

fun template_text :: "jsval option \<Rightarrow> string" where
  "template_text None = ''undefined''"
| "template_text (Some (JStr s)) = s"
| "template_text (Some (JBool b)) = (if b then ''true'' else ''false'')"
| "template_text (Some (JNum w)) =
     (if sint w < 0 then CHR ''-'' # dec (nat (- sint w)) else dec (nat (sint w)))"

section \<open>The hub's state\<close>

text \<open>\<^verbatim>\<open>interface ConnectedUser\<close>; the optional \<^verbatim>\<open>noteId\<close> is an option.\<close>

record ConnectedUser =
  socketId :: string
  userId :: string
  userName :: string
  noteId :: "string option"
  color :: string
  lastActivity :: int

text \<open>The data of an emitted event: an object, or the array of roster entries.\<close>

datatype payload = Obj jsobj | Arr "jsobj list"

text \<open>
  \<open>connectedUsers\<close> and \<open>noteRooms\<close> are the two private maps of \<^verbatim>\<open>WebSocketService\<close>.
  \<open>ioRooms\<close> is the transport's own room table (socket.io's adapter: room name to the
  sockets joined to it), which decides who receives a broadcast. \<open>outbox\<close> records every
  event the hub has emitted, oldest first, as (receiving socket, event name, data).
\<close>

record hub =
  connectedUsers :: "(string \<times> ConnectedUser) list"
  noteRooms :: "(string \<times> string list) list"
  ioRooms :: "(string \<times> string list) list"
  outbox :: "(string \<times> string \<times> payload) list"

definition init_hub :: hub where
  "init_hub = \<lparr>connectedUsers = [], noteRooms = [], ioRooms = [], outbox = []\<rparr>"

definition userColors :: "string list" where
  "userColors = [''#FF6B6B'', ''#4ECDC4'', ''#45B7D1'', ''#FFA07A'', ''#98D8C8'',
                 ''#F7DC6F'', ''#BB8FCE'', ''#85C1E2'', ''#F8B739'', ''#52B788'']"

section \<open>The transport\<close>

text \<open>
  socket.io is a dependency of the repository, so its four calls the hub uses are
  modelled from their documented behaviour: \<^verbatim>\<open>socket.join(room)\<close> and
  \<^verbatim>\<open>socket.leave(room)\<close> add the socket to and remove it from a room,
  \<^verbatim>\<open>socket.emit\<close> sends to the socket itself, \<^verbatim>\<open>socket.to(room).emit\<close> sends to every
  socket joined to the room except the calling one, and a closing socket has left all
  its rooms when its \<^verbatim>\<open>disconnect\<close> listeners run.
\<close>

definition io_members :: "hub \<Rightarrow> string \<Rightarrow> string list" where
  "io_members s room = (case map_get (ioRooms s) room of None \<Rightarrow> [] | Some ids \<Rightarrow> ids)"

definition socket_join :: "string \<Rightarrow> string \<Rightarrow> hub \<Rightarrow> hub" where
  "socket_join sid room s =
     s\<lparr>ioRooms := map_set room (set_add sid (io_members s room)) (ioRooms s)\<rparr>"

definition socket_leave :: "string \<Rightarrow> string \<Rightarrow> hub \<Rightarrow> hub" where
  "socket_leave sid room s =
     (case map_get (ioRooms s) room of
        None \<Rightarrow> s
      | Some ids \<Rightarrow> s\<lparr>ioRooms := map_set room (set_delete sid ids) (ioRooms s)\<rparr>)"

definition socket_leave_all :: "string \<Rightarrow> hub \<Rightarrow> hub" where
  "socket_leave_all sid s =
     s\<lparr>ioRooms := map (\<lambda>p. (fst p, set_delete sid (snd p))) (ioRooms s)\<rparr>"

definition socket_emit :: "string \<Rightarrow> string \<Rightarrow> payload \<Rightarrow> hub \<Rightarrow> hub" where
  "socket_emit sid ev d s = s\<lparr>outbox := outbox s @ [(sid, ev, d)]\<rparr>"

definition socket_to_emit :: "string \<Rightarrow> string \<Rightarrow> string \<Rightarrow> payload \<Rightarrow> hub \<Rightarrow> hub" where
  "socket_to_emit sid room ev d s =
     s\<lparr>outbox := outbox s @ map (\<lambda>r. (r, ev, d)) (filter (\<lambda>r. r \<noteq> sid) (io_members s room))\<rparr>"

definition note_room :: "string \<Rightarrow> string" where
  "note_room n = ''note:'' @ n"

section \<open>The handlers\<close>

text \<open>
  \<^verbatim>\<open>assignUserColor\<close>: \<open>pick\<close> is the value of
  \<^verbatim>\<open>Math.floor(Math.random() * this.userColors.length)\<close>, a number from 0 to 9.
\<close>

definition assignUserColor :: "nat \<Rightarrow> string" where
  "assignUserColor pick = userColors ! pick"

text \<open>\<^verbatim>\<open>handleAuthentication\<close>; \<open>now\<close> is the value of \<^verbatim>\<open>Date.now()\<close>.\<close>

definition handleAuthentication :: "hub \<Rightarrow> string \<Rightarrow> string \<Rightarrow> string \<Rightarrow> nat \<Rightarrow> int \<Rightarrow> hub" where
  "handleAuthentication s sid uid uname pick now =
     (let c = assignUserColor pick;
          user = \<lparr>socketId = sid, userId = uid, userName = uname, noteId = None,
                  color = c, lastActivity = now\<rparr>;
          s1 = s\<lparr>connectedUsers := map_set sid user (connectedUsers s)\<rparr>
      in socket_emit sid ''authenticated'' (Obj [(''color'', JStr c)]) s1)"

text \<open>The member set of a room in \<open>noteRooms\<close>: \<^verbatim>\<open>this.noteRooms.get(noteId) || new Set()\<close>.\<close>

definition room_members :: "hub \<Rightarrow> string \<Rightarrow> string list" where
  "room_members s n = (case map_get (noteRooms s) n of None \<Rightarrow> [] | Some ids \<Rightarrow> ids)"

definition user_tuple :: "ConnectedUser \<Rightarrow> jsobj" where
  "user_tuple user = [(''userId'', JStr (userId user)), (''userName'', JStr (userName user)),
                      (''color'', JStr (color user))]"

text \<open>The loop of \<^verbatim>\<open>getActiveUsersInNote\<close>: \<open>users\<close> is the array built so far.\<close>

fun collect_users :: "(string \<times> ConnectedUser) list \<Rightarrow> string list \<Rightarrow> jsobj list \<Rightarrow> jsobj list" where
  "collect_users cu [] users = users"
| "collect_users cu (sid # rest) users =
     (case map_get cu sid of
        None \<Rightarrow> collect_users cu rest users
      | Some user \<Rightarrow> collect_users cu rest (users @ [user_tuple user]))"

definition getActiveUsersInNote :: "hub \<Rightarrow> string \<Rightarrow> jsobj list" where
  "getActiveUsersInNote s n = collect_users (connectedUsers s) (room_members s n) []"

text \<open>\<^verbatim>\<open>getUsersInNote\<close>: map every member to its record, then drop the undefined ones.\<close>

definition getUsersInNote :: "hub \<Rightarrow> string \<Rightarrow> ConnectedUser list" where
  "getUsersInNote s n =
     map the (filter (\<lambda>user. user \<noteq> None) (map (map_get (connectedUsers s)) (room_members s n)))"

text \<open>\<^verbatim>\<open>this.noteRooms.has(noteId)\<close>.\<close>

definition has_room :: "hub \<Rightarrow> string \<Rightarrow> bool" where
  "has_room s n = (map_get (noteRooms s) n \<noteq> None)"

text \<open>\<^verbatim>\<open>handleNoteJoin\<close>.\<close>

definition handleNoteJoin :: "hub \<Rightarrow> string \<Rightarrow> string \<Rightarrow> int \<Rightarrow> hub" where
  "handleNoteJoin s sid n now =
     (case map_get (connectedUsers s) sid of
        None \<Rightarrow> s
      | Some user \<Rightarrow>
          let s1 = socket_join sid (note_room n) s;
              user' = user\<lparr>noteId := Some n, lastActivity := now\<rparr>;
              s2 = s1\<lparr>connectedUsers := map_set sid user' (connectedUsers s1)\<rparr>;
              s3 = (if \<not> has_room s2 n
                    then s2\<lparr>noteRooms := map_set n [] (noteRooms s2)\<rparr> else s2);
              s4 = s3\<lparr>noteRooms := map_set n (set_add sid (room_members s3 n)) (noteRooms s3)\<rparr>;
              activeUsers = getActiveUsersInNote s4 n;
              s5 = socket_to_emit sid (note_room n) ''user:joined'' (Obj (user_tuple user')) s4
          in socket_emit sid ''note:users'' (Arr activeUsers) s5)"

text \<open>\<^verbatim>\<open>handleNoteLeave\<close>; \<^verbatim>\<open>this.noteRooms.get(noteId)?.delete(socket.id)\<close> does nothing for a
  room without an entry.\<close>

definition left_data :: "ConnectedUser \<Rightarrow> payload" where
  "left_data user = Obj [(''userId'', JStr (userId user)), (''userName'', JStr (userName user))]"

definition room_delete :: "string \<Rightarrow> string \<Rightarrow> hub \<Rightarrow> hub" where
  "room_delete n sid s =
     (case map_get (noteRooms s) n of
        None \<Rightarrow> s
      | Some ids \<Rightarrow> s\<lparr>noteRooms := map_set n (set_delete sid ids) (noteRooms s)\<rparr>)"

definition handleNoteLeave :: "hub \<Rightarrow> string \<Rightarrow> string \<Rightarrow> hub" where
  "handleNoteLeave s sid n =
     (case map_get (connectedUsers s) sid of
        None \<Rightarrow> s
      | Some user \<Rightarrow>
          let s1 = socket_leave sid (note_room n) s;
              user' = user\<lparr>noteId := None\<rparr>;
              s2 = s1\<lparr>connectedUsers := map_set sid user' (connectedUsers s1)\<rparr>;
              s3 = room_delete n sid s2
          in socket_to_emit sid (note_room n) ''user:left'' (left_data user') s3)"

text \<open>
  What a relay listener is called with. The declared type is an object, but the
  argument is whatever the client emitted: \<open>Props d\<close> is an object with the properties
  \<open>d\<close>, and \<open>Nullish\<close> is \<^verbatim>\<open>undefined\<close> (no argument) or \<^verbatim>\<open>null\<close>, on which reading
  \<^verbatim>\<open>data.noteId\<close> throws a \<^verbatim>\<open>TypeError\<close>. A number or a boolean argument has no
  \<^verbatim>\<open>noteId\<close> and spreads to nothing, so it is \<open>Props []\<close>.
\<close>

datatype received = Nullish | Props jsobj

datatype error = TypeError

text \<open>
  The outcome of a listener: \<open>Inr s\<close> when it returns, leaving the hub in state \<open>s\<close>, and
  \<open>Inl (e, s)\<close> when it throws \<open>e\<close>, leaving the hub in state \<open>s\<close>.
\<close>

type_synonym outcome = "(error \<times> hub) + hub"

definition state_of :: "outcome \<Rightarrow> hub" where
  "state_of r = (case r of Inl (e, s) \<Rightarrow> s | Inr s \<Rightarrow> s)"

text \<open>
  The four relays. \<^verbatim>\<open>{...data, userId: user.userId, userName: user.userName}\<close> copies the
  properties of \<open>data\<close> and then writes the two (or three) identity properties over them.
\<close>

definition data_room :: "jsobj \<Rightarrow> string" where
  "data_room d = note_room (template_text (map_get d ''noteId''))"

definition stamp :: "ConnectedUser \<Rightarrow> jsobj \<Rightarrow> jsobj" where
  "stamp user d = map_set ''userName'' (JStr (userName user))
                    (map_set ''userId'' (JStr (userId user)) d)"

definition stamp_color :: "ConnectedUser \<Rightarrow> jsobj \<Rightarrow> jsobj" where
  "stamp_color user d = map_set ''color'' (JStr (color user)) (stamp user d)"


text \<open>
  \<^verbatim>\<open>handleNoteUpdate\<close> writes \<^verbatim>\<open>lastActivity\<close> before it reads \<^verbatim>\<open>data.noteId\<close>, so the
  write stays when the read throws.
\<close>

definition handleNoteUpdate :: "hub \<Rightarrow> string \<Rightarrow> received \<Rightarrow> int \<Rightarrow> outcome" where
  "handleNoteUpdate s sid data now =
     (case map_get (connectedUsers s) sid of
        None \<Rightarrow> Inr s
      | Some user \<Rightarrow>
          let user' = user\<lparr>lastActivity := now\<rparr>;
              s1 = s\<lparr>connectedUsers := map_set sid user' (connectedUsers s)\<rparr>
          in (case data of
                Nullish \<Rightarrow> Inl (TypeError, s1)
              | Props d \<Rightarrow>
                  Inr (socket_to_emit sid (data_room d) ''note:update'' (Obj (stamp user' d)) s1)))"

definition handleCursorUpdate :: "hub \<Rightarrow> string \<Rightarrow> received \<Rightarrow> outcome" where
  "handleCursorUpdate s sid data =
     (case map_get (connectedUsers s) sid of
        None \<Rightarrow> Inr s
      | Some user \<Rightarrow>
          (case data of
             Nullish \<Rightarrow> Inl (TypeError, s)
           | Props d \<Rightarrow>
               Inr (socket_to_emit sid (data_room d) ''note:cursor'' (Obj (stamp_color user d)) s)))"

definition handleSelectionUpdate :: "hub \<Rightarrow> string \<Rightarrow> received \<Rightarrow> outcome" where
  "handleSelectionUpdate s sid data =
     (case map_get (connectedUsers s) sid of
        None \<Rightarrow> Inr s
      | Some user \<Rightarrow>
          (case data of
             Nullish \<Rightarrow> Inl (TypeError, s)
           | Props d \<Rightarrow>
               Inr (socket_to_emit sid (data_room d) ''note:selection''
                      (Obj (stamp_color user d)) s)))"

definition handleTypingIndicator :: "hub \<Rightarrow> string \<Rightarrow> received \<Rightarrow> outcome" where
  "handleTypingIndicator s sid data =
     (case map_get (connectedUsers s) sid of
        None \<Rightarrow> Inr s
      | Some user \<Rightarrow>
          (case data of
             Nullish \<Rightarrow> Inl (TypeError, s)
           | Props d \<Rightarrow>
               Inr (socket_to_emit sid (data_room d) ''user:typing'' (Obj (stamp user d)) s)))"

definition handleUserActivity :: "hub \<Rightarrow> string \<Rightarrow> int \<Rightarrow> hub" where
  "handleUserActivity s sid now =
     (case map_get (connectedUsers s) sid of
        None \<Rightarrow> s
      | Some user \<Rightarrow>
          s\<lparr>connectedUsers := map_set sid (user\<lparr>lastActivity := now\<rparr>) (connectedUsers s)\<rparr>)"

text \<open>
  \<^verbatim>\<open>if (user.noteId)\<close> tests truthiness: an unset \<^verbatim>\<open>noteId\<close> and the empty string both
  fail it. \<open>current_note\<close> is the \<^verbatim>\<open>noteId\<close> that passes the test, if any.
\<close>

definition current_note :: "ConnectedUser \<Rightarrow> string option" where
  "current_note user = (case noteId user of None \<Rightarrow> None | Some n \<Rightarrow> if n = [] then None else Some n)"

text \<open>\<^verbatim>\<open>handleDisconnect\<close>.\<close>

definition handleDisconnect :: "hub \<Rightarrow> string \<Rightarrow> hub" where
  "handleDisconnect s sid =
     (let s2 = (case map_get (connectedUsers s) sid of
                  None \<Rightarrow> s
                | Some user \<Rightarrow>
                    (case current_note user of
                       None \<Rightarrow> s
                     | Some n \<Rightarrow>
                         room_delete n sid
                           (socket_to_emit sid (note_room n) ''user:left'' (left_data user) s)))
      in s2\<lparr>connectedUsers := map_delete sid (connectedUsers s2)\<rparr>)"

text \<open>
  \<^verbatim>\<open>cleanupInactiveConnections\<close>: one turn of the loop over
  \<^verbatim>\<open>this.connectedUsers.entries()\<close>, and the loop. A turn deletes at most the entry it
  visits, so the entries visited are those of the map when the loop starts.
\<close>

definition cleanup_entry :: "int \<Rightarrow> int \<Rightarrow> string \<times> ConnectedUser \<Rightarrow> hub \<Rightarrow> hub" where
  "cleanup_entry timeoutMs now e s =
     (if now - lastActivity (snd e) > timeoutMs
      then let s1 = s\<lparr>connectedUsers := map_delete (fst e) (connectedUsers s)\<rparr>
           in (case current_note (snd e) of None \<Rightarrow> s1 | Some n \<Rightarrow> room_delete n (fst e) s1)
      else s)"

definition cleanupInactiveConnections :: "hub \<Rightarrow> int \<Rightarrow> int \<Rightarrow> hub" where
  "cleanupInactiveConnections s timeoutMs now =
     fold (cleanup_entry timeoutMs now) (connectedUsers s) s"

section \<open>Events and runs\<close>

text \<open>
  What \<^verbatim>\<open>setupEventHandlers\<close> registers, and the maintenance call. A closing socket
  leaves its transport rooms before its \<^verbatim>\<open>disconnect\<close> listener runs. When a relay
  listener throws, the hub's maps stay as the listener left them; a run goes on from
  that state, so the states of runs include every state of a hub whose process ends
  with the exception.
\<close>

datatype event =
    Authenticate string string string nat int
  | Join string string int
  | Leave string string
  | NoteUpdate string received int
  | Cursor string received
  | Selection string received
  | Typing string received
  | Active string int
  | Disconnect string
  | Sweep int int

fun step :: "hub \<Rightarrow> event \<Rightarrow> hub" where
  "step s (Authenticate sid uid uname pick now) = handleAuthentication s sid uid uname pick now"
| "step s (Join sid n now) = handleNoteJoin s sid n now"
| "step s (Leave sid n) = handleNoteLeave s sid n"
| "step s (NoteUpdate sid d now) = state_of (handleNoteUpdate s sid d now)"
| "step s (Cursor sid d) = state_of (handleCursorUpdate s sid d)"
| "step s (Selection sid d) = state_of (handleSelectionUpdate s sid d)"
| "step s (Typing sid d) = state_of (handleTypingIndicator s sid d)"
| "step s (Active sid now) = handleUserActivity s sid now"
| "step s (Disconnect sid) = handleDisconnect (socket_leave_all sid s) sid"
| "step s (Sweep timeoutMs now) = cleanupInactiveConnections s timeoutMs now"

definition run :: "hub \<Rightarrow> event list \<Rightarrow> hub" where
  "run s es = foldl step s es"

section \<open>Clients that hold one room at a time\<close>

text \<open>
  The hub does not enforce an order on a client's events. \<open>client_ok\<close> is the order a
  client keeps when it holds one note at a time: it authenticates while it has no
  record, joins a note with a non-empty id while its \<^verbatim>\<open>noteId\<close> is unset (or is that
  note already), and leaves the note its \<^verbatim>\<open>noteId\<close> names (or any note while it is
  unset). \<open>run_ok\<close> checks a whole sequence of events, each against the state it meets.
\<close>

fun client_ok :: "hub \<Rightarrow> event \<Rightarrow> bool" where
  "client_ok s (Authenticate sid uid uname pick now) = (map_get (connectedUsers s) sid = None)"
| "client_ok s (Join sid n now) =
     (n \<noteq> [] \<and> (case map_get (connectedUsers s) sid of
                   None \<Rightarrow> True
                 | Some user \<Rightarrow> noteId user = None \<or> noteId user = Some n))"
| "client_ok s (Leave sid n) =
     (case map_get (connectedUsers s) sid of
        None \<Rightarrow> True
      | Some user \<Rightarrow> noteId user = None \<or> noteId user = Some n)"
| "client_ok s e = True"

fun run_ok :: "hub \<Rightarrow> event list \<Rightarrow> bool" where
  "run_ok s [] = True"
| "run_ok s (e # es) = (client_ok s e \<and> run_ok (step s e) es)"

text \<open>
  The invariant behind the room table: each member of a room has a record whose
  \<^verbatim>\<open>noteId\<close> is that room; and the keys of \<open>connectedUsers\<close> are distinct.
\<close>

definition members_registered :: "hub \<Rightarrow> bool" where
  "members_registered s =
     (\<forall>n sid. sid \<in> set (room_members s n) \<longrightarrow>
        (\<exists>u. map_get (connectedUsers s) sid = Some u \<and> current_note u = Some n))"

definition keys_distinct :: "hub \<Rightarrow> bool" where
  "keys_distinct s = distinct (map fst (connectedUsers s))"

section \<open>Example runs\<close>

text \<open>
  Two users, Ann on socket \<open>A\<close> and Bob on socket \<open>B\<close>, authenticate and open the note
  \<open>doc1\<close>.
\<close>

definition ex_pair :: hub where
  "ex_pair = run init_hub
     [Authenticate ''A'' ''u1'' ''Ann'' 0 100, Authenticate ''B'' ''u2'' ''Bob'' 1 101,
      Join ''A'' ''doc1'' 102, Join ''B'' ''doc1'' 103]"

text \<open>Ann alone opens \<open>doc1\<close>.\<close>

definition ex_solo :: hub where
  "ex_solo = run init_hub [Authenticate ''A'' ''u1'' ''Ann'' 0 100, Join ''A'' ''doc1'' 102]"

text \<open>Ann and Bob are in \<open>doc1\<close>; Bob alone stays active until time 5000.\<close>

definition ex_idle :: hub where
  "ex_idle = run ex_pair [Active ''B'' 5000]"

definition ann_in_doc1 :: ConnectedUser where
  "ann_in_doc1 = \<lparr>socketId = ''A'', userId = ''u1'', userName = ''Ann'', noteId = Some ''doc1'',
                   color = ''#FF6B6B'', lastActivity = 102\<rparr>"


definition bob_in_doc1 :: ConnectedUser where
  "bob_in_doc1 = \<lparr>socketId = ''B'', userId = ''u2'', userName = ''Bob'', noteId = Some ''doc1'',
                   color = ''#4ECDC4'', lastActivity = 103\<rparr>"

text \<open>Ann and Bob are in \<open>doc1\<close>, and a third user, Cy on socket \<open>C\<close>, has authenticated.\<close>

definition cy_new :: ConnectedUser where
  "cy_new = \<lparr>socketId = ''C'', userId = ''u3'', userName = ''Cy'', noteId = None,
              color = ''#45B7D1'', lastActivity = 105\<rparr>"

definition ex_three :: hub where
  "ex_three = run ex_pair [Authenticate ''C'' ''u3'' ''Cy'' 2 105]"

text \<open>
  Cy opens \<open>doc1\<close> too; then Ann opens \<open>doc2\<close> without leaving \<open>doc1\<close>, and her socket
  closes: \<open>doc1\<close> lists \<open>A\<close>, \<open>B\<close> and \<open>C\<close>, and \<open>A\<close> has no record.
\<close>

definition ex_crowd :: hub where
  "ex_crowd = run ex_three [Join ''C'' ''doc1'' 106, Join ''A'' ''doc2'' 107, Disconnect ''A'']"

definition cy_in_doc1 :: ConnectedUser where
  "cy_in_doc1 = \<lparr>socketId = ''C'', userId = ''u3'', userName = ''Cy'', noteId = Some ''doc1'',
                  color = ''#45B7D1'', lastActivity = 106\<rparr>"







text \<open>
  A run in which every client holds one room at a time: Ann leaves \<open>doc1\<close> before she
  opens \<open>doc2\<close>, then her socket closes, and a sweep finds nobody idle.
\<close>

definition ex_polite :: "event list" where
  "ex_polite =
     [Authenticate ''A'' ''u1'' ''Ann'' 0 100, Authenticate ''B'' ''u2'' ''Bob'' 1 101,
      Join ''A'' ''doc1'' 102, Join ''B'' ''doc1'' 103, Leave ''A'' ''doc1'',
      Join ''A'' ''doc2'' 104, Cursor ''B'' (Props [(''noteId'', JStr ''doc1''), (''position'', JNum 7)]),
      Typing ''B'' Nullish,
      Disconnect ''A'', Sweep 1000 500]"

section \<open>Basic facts about the containers and the transport\<close>

lemma map_get_set: "map_get (map_set k v m) k' = (if k' = k then Some v else map_get m k')"
  by (simp add: map_get_def map_set_def update_conv')

lemma map_get_delete: "map_get (map_delete k m) k' = (if k' = k then None else map_get m k')"
  by (simp add: map_get_def map_delete_def delete_conv)

lemma map_delete_twice: "map_delete k (map_delete k m) = map_delete k m"
  by (simp add: map_delete_def delete_idem)

lemma set_set_add: "set (set_add x xs) = insert x (set xs)"
  by (auto simp: set_add_def)

lemma set_set_delete: "set (set_delete x xs) = set xs - {x}"
  by (auto simp: set_delete_def)

lemma set_delete_twice: "set_delete x (set_delete x xs) = set_delete x xs"
  by (simp add: set_delete_def)

lemma socket_to_emit_fields:
  "connectedUsers (socket_to_emit sid room ev d s) = connectedUsers s"
  "noteRooms (socket_to_emit sid room ev d s) = noteRooms s"
  "ioRooms (socket_to_emit sid room ev d s) = ioRooms s"
  "outbox (socket_to_emit sid room ev d s) =
     outbox s @ map (\<lambda>r. (r, ev, d)) (filter (\<lambda>r. r \<noteq> sid) (io_members s room))"
  by (simp_all add: socket_to_emit_def)

lemma socket_emit_fields:
  "connectedUsers (socket_emit sid ev d s) = connectedUsers s"
  "noteRooms (socket_emit sid ev d s) = noteRooms s"
  "ioRooms (socket_emit sid ev d s) = ioRooms s"
  "outbox (socket_emit sid ev d s) = outbox s @ [(sid, ev, d)]"
  by (simp_all add: socket_emit_def)

lemma room_delete_fields:
  "connectedUsers (room_delete n sid s) = connectedUsers s"
  "ioRooms (room_delete n sid s) = ioRooms s"
  "outbox (room_delete n sid s) = outbox s"
  by (simp_all add: room_delete_def split: option.splits)


lemma socket_leave_fields:
  "connectedUsers (socket_leave sid room s) = connectedUsers s"
  "noteRooms (socket_leave sid room s) = noteRooms s"
  "outbox (socket_leave sid room s) = outbox s"
  by (simp_all add: socket_leave_def split: option.splits)

lemma socket_join_fields:
  "connectedUsers (socket_join sid room s) = connectedUsers s"
  "noteRooms (socket_join sid room s) = noteRooms s"
  "outbox (socket_join sid room s) = outbox s"
  by (simp_all add: socket_join_def)

lemma room_members_room_delete:
  "room_members (room_delete n sid s) n' =
     (if n' = n then set_delete sid (room_members s n) else room_members s n')"
  by (simp add: room_members_def room_delete_def map_get_set split: option.splits)
     (simp add: set_delete_def)

lemma room_delete_last:
  "map_get (noteRooms s) n = Some [sid] \<Longrightarrow> map_get (noteRooms (room_delete n sid s)) n = Some []"
  by (simp add: room_delete_def map_get_set set_delete_def)

lemma has_room_room_delete: "has_room (room_delete n sid s) n' = has_room s n'"
  by (simp add: has_room_def room_delete_def map_get_set split: option.splits)

lemma handleNoteLeave_noteRooms:
  "noteRooms (handleNoteLeave s sid n) =
     (case map_get (connectedUsers s) sid of
        None \<Rightarrow> noteRooms s
      | Some user \<Rightarrow> noteRooms (room_delete n sid s))"
  by (simp add: handleNoteLeave_def Let_def socket_to_emit_fields socket_leave_fields
      room_delete_def split: option.splits)

lemma handleDisconnect_noteRooms:
  "noteRooms (handleDisconnect s sid) =
     (case map_get (connectedUsers s) sid of
        None \<Rightarrow> noteRooms s
      | Some user \<Rightarrow>
          (case current_note user of
             None \<Rightarrow> noteRooms s
           | Some n \<Rightarrow> noteRooms (room_delete n sid s)))"
  by (simp add: handleDisconnect_def Let_def socket_to_emit_fields room_delete_def
      split: option.splits)


lemma filter_other_set_add:
  "filter (\<lambda>r. r \<noteq> sid) (set_add sid xs) = filter (\<lambda>r. r \<noteq> sid) xs"
  by (simp add: set_add_def)


lemma io_members_socket_join:
  "filter (\<lambda>r. r \<noteq> sid) (io_members (socket_join sid room s) room') =
   filter (\<lambda>r. r \<noteq> sid) (io_members s room')"
  by (simp add: io_members_def socket_join_def map_get_set filter_other_set_add
      split: option.splits)


lemma note_room_inject: "(note_room a = note_room b) = (a = b)"
  by (simp add: note_room_def)

lemma state_of_simps: "state_of (Inr s) = s" "state_of (Inl (e, s)) = s"
  by (simp_all add: state_of_def)

lemma relay_noteRooms:
  "noteRooms (state_of (handleNoteUpdate s sid data now)) = noteRooms s"
  "noteRooms (state_of (handleCursorUpdate s sid data)) = noteRooms s"
  "noteRooms (state_of (handleSelectionUpdate s sid data)) = noteRooms s"
  "noteRooms (state_of (handleTypingIndicator s sid data)) = noteRooms s"
  by (simp_all add: handleNoteUpdate_def handleCursorUpdate_def handleSelectionUpdate_def
      handleTypingIndicator_def Let_def state_of_simps socket_to_emit_fields
      split: option.splits received.splits)

lemma relay_users:
  "connectedUsers (state_of (handleCursorUpdate s sid data)) = connectedUsers s"
  "connectedUsers (state_of (handleSelectionUpdate s sid data)) = connectedUsers s"
  "connectedUsers (state_of (handleTypingIndicator s sid data)) = connectedUsers s"
  by (simp_all add: handleCursorUpdate_def handleSelectionUpdate_def
      handleTypingIndicator_def state_of_simps socket_to_emit_fields
      split: option.splits received.splits)

lemma handleNoteUpdate_users:
  "connectedUsers (state_of (handleNoteUpdate s sid data now)) =
     (case map_get (connectedUsers s) sid of
        None \<Rightarrow> connectedUsers s
      | Some u \<Rightarrow> map_set sid (u\<lparr>lastActivity := now\<rparr>) (connectedUsers s))"
  by (simp add: handleNoteUpdate_def Let_def state_of_simps socket_to_emit_fields
      split: option.splits received.splits)

section \<open>Disconnecting twice\<close>

lemma handleDisconnect_users:
  "connectedUsers (handleDisconnect s sid) = map_delete sid (connectedUsers s)"
  by (simp add: handleDisconnect_def Let_def room_delete_fields socket_to_emit_fields
      split: option.splits)

lemma handleDisconnect_ioRooms: "ioRooms (handleDisconnect s sid) = ioRooms s"
  by (simp add: handleDisconnect_def Let_def room_delete_fields socket_to_emit_fields
      split: option.splits)

lemma handleDisconnect_outbox:
  "outbox (handleDisconnect s sid) =
     outbox s @
     (case map_get (connectedUsers s) sid of
        None \<Rightarrow> []
      | Some user \<Rightarrow>
          (case current_note user of
             None \<Rightarrow> []
           | Some n \<Rightarrow> map (\<lambda>r. (r, ''user:left'', left_data user))
                        (filter (\<lambda>r. r \<noteq> sid) (io_members s (note_room n)))))"
  by (simp add: handleDisconnect_def Let_def room_delete_fields socket_to_emit_fields
      split: option.splits)

lemma handleDisconnect_absent:
  "map_get (connectedUsers s) sid = None \<Longrightarrow>
   handleDisconnect s sid = s\<lparr>connectedUsers := map_delete sid (connectedUsers s)\<rparr>"
  by (simp add: handleDisconnect_def)

lemma handleDisconnect_twice:
  "handleDisconnect (handleDisconnect s sid) sid = handleDisconnect s sid"
proof -
  let ?t = "handleDisconnect s sid"
  have gone: "map_get (connectedUsers ?t) sid = None"
    by (simp add: handleDisconnect_users map_get_delete)
  have "handleDisconnect ?t sid = ?t\<lparr>connectedUsers := map_delete sid (connectedUsers ?t)\<rparr>"
    using gone by (rule handleDisconnect_absent)
  also have "map_delete sid (connectedUsers ?t) = connectedUsers ?t"
    by (simp add: handleDisconnect_users map_delete_twice)
  finally show ?thesis by simp
qed

lemma socket_leave_all_twice:
  "socket_leave_all sid (socket_leave_all sid s) = socket_leave_all sid s"
  by (simp add: socket_leave_all_def set_delete_twice comp_def)

lemma socket_leave_all_fixed:
  assumes "ioRooms t = ioRooms (socket_leave_all sid s)"
  shows "socket_leave_all sid t = t"
proof -
  have "ioRooms (socket_leave_all sid t) = ioRooms (socket_leave_all sid (socket_leave_all sid s))"
    using assms by (simp add: socket_leave_all_def)
  then have "ioRooms (socket_leave_all sid t) = ioRooms t"
    using assms by (simp add: socket_leave_all_twice)
  then show ?thesis
    by (simp add: socket_leave_all_def)
qed

text \<open>
  Claim C9. Disconnect is idempotent. A second \<^verbatim>\<open>handleDisconnect\<close> for the same socket
  leaves the whole state as the first one made it, the emitted events included, for
  the listener alone and for the transport's disconnect event; and the first call
  emits \<^verbatim>\<open>user:left\<close> at most once to each other socket of the closing user's room.
\<close>

theorem disconnect_idempotent:
  "handleDisconnect (handleDisconnect s sid) sid = handleDisconnect s sid
   \<and> step (step s (Disconnect sid)) (Disconnect sid) = step s (Disconnect sid)
   \<and> outbox (handleDisconnect s sid) =
       outbox s @
       (case map_get (connectedUsers s) sid of
          None \<Rightarrow> []
        | Some user \<Rightarrow>
            (case current_note user of
               None \<Rightarrow> []
             | Some n \<Rightarrow> map (\<lambda>r. (r, ''user:left'', left_data user))
                          (filter (\<lambda>r. r \<noteq> sid) (io_members s (note_room n)))))"
proof -
  let ?t = "handleDisconnect (socket_leave_all sid s) sid"
  have "socket_leave_all sid ?t = ?t"
    by (rule socket_leave_all_fixed) (simp add: handleDisconnect_ioRooms)
  then have "step (step s (Disconnect sid)) (Disconnect sid) = step s (Disconnect sid)"
    by (simp add: handleDisconnect_twice)
  then show ?thesis
    by (simp add: handleDisconnect_twice handleDisconnect_outbox)
qed

theorem disconnect_idempotent_witness:
  "step (step ex_pair (Disconnect ''A'')) (Disconnect ''A'') = step ex_pair (Disconnect ''A'')
   \<and> outbox (step ex_pair (Disconnect ''A'')) =
       outbox ex_pair @
         [(''B'', ''user:left'', Obj [(''userId'', JStr ''u1''), (''userName'', JStr ''Ann'')])]"
proof -
  have "outbox (step ex_pair (Disconnect ''A'')) =
       outbox ex_pair @
         [(''B'', ''user:left'', Obj [(''userId'', JStr ''u1''), (''userName'', JStr ''Ann'')])]"
    by code_simp
  with disconnect_idempotent [of ex_pair "''A''"] show ?thesis
    by blast
qed

section \<open>The presence roster\<close>

lemma collect_users_acc:
  "collect_users cu ids users =
     users @ concat (map (\<lambda>sid. case map_get cu sid of None \<Rightarrow> [] | Some user \<Rightarrow> [user_tuple user]) ids)"
  by (induction ids arbitrary: users) (auto split: option.splits)

lemma defined_records:
  "map the (filter (\<lambda>user. user \<noteq> None) (map (map_get cu) ids)) =
     concat (map (\<lambda>sid. case map_get cu sid of None \<Rightarrow> [] | Some user \<Rightarrow> [user]) ids)"
  by (induction ids) (auto split: option.splits)

text \<open>
  Claim C10. Computing the roster of a room always gives a result: each member
  socket that has a record in \<open>connectedUsers\<close> contributes exactly one entry, the
  object \<open>{userId, userName, color}\<close> holding the three values of its own record (its
  record itself, for \<^verbatim>\<open>getUsersInNote\<close>), in the order of the member set; a member with
  no record contributes nothing; and a note with no entry in \<open>noteRooms\<close> has the empty
  roster.
\<close>

theorem roster_total:
  "getActiveUsersInNote s n =
     concat (map (\<lambda>sid. case map_get (connectedUsers s) sid of
                          None \<Rightarrow> []
                        | Some user \<Rightarrow> [[(''userId'', JStr (userId user)),
                                        (''userName'', JStr (userName user)),
                                        (''color'', JStr (color user))]])
               (room_members s n))
   \<and> getUsersInNote s n =
     concat (map (\<lambda>sid. case map_get (connectedUsers s) sid of
                          None \<Rightarrow> [] | Some user \<Rightarrow> [user]) (room_members s n))
   \<and> (map_get (noteRooms s) n = None \<longrightarrow>
        getActiveUsersInNote s n = [] \<and> getUsersInNote s n = [])"
proof -
  have active: "getActiveUsersInNote s n =
     concat (map (\<lambda>sid. case map_get (connectedUsers s) sid of
                          None \<Rightarrow> []
                        | Some user \<Rightarrow> [[(''userId'', JStr (userId user)),
                                        (''userName'', JStr (userName user)),
                                        (''color'', JStr (color user))]])
               (room_members s n))"
    unfolding getActiveUsersInNote_def collect_users_acc user_tuple_def by simp
  have records: "getUsersInNote s n =
     concat (map (\<lambda>sid. case map_get (connectedUsers s) sid of
                          None \<Rightarrow> [] | Some user \<Rightarrow> [user]) (room_members s n))"
    unfolding getUsersInNote_def by (rule defined_records)
  have "getActiveUsersInNote s n = [] \<and> getUsersInNote s n = []"
    if "map_get (noteRooms s) n = None"
    using that by (simp add: active records room_members_def)
  with active records show ?thesis
    by blast
qed

theorem roster_total_witness:
  "map_get (noteRooms ex_crowd) ''doc9'' = None
   \<and> getActiveUsersInNote ex_crowd ''doc9'' = []
   \<and> getUsersInNote ex_crowd ''doc9'' = []
   \<and> room_members ex_crowd ''doc1'' = [''A'', ''B'', ''C'']
   \<and> map_get (connectedUsers ex_crowd) ''A'' = None
   \<and> getActiveUsersInNote ex_crowd ''doc1'' =
       [[(''userId'', JStr ''u2''), (''userName'', JStr ''Bob''), (''color'', JStr ''#4ECDC4'')],
        [(''userId'', JStr ''u3''), (''userName'', JStr ''Cy''), (''color'', JStr ''#45B7D1'')]]
   \<and> getUsersInNote ex_crowd ''doc1'' = [bob_in_doc1, cy_in_doc1]"
proof -
  have absent: "map_get (noteRooms ex_crowd) ''doc9'' = None"
    by code_simp
  have members: "room_members ex_crowd ''doc1'' = [''A'', ''B'', ''C'']"
    by code_simp
  have a: "map_get (connectedUsers ex_crowd) ''A'' = None"
    by code_simp
  have b: "map_get (connectedUsers ex_crowd) ''B'' = Some bob_in_doc1"
    by code_simp
  have c: "map_get (connectedUsers ex_crowd) ''C'' = Some cy_in_doc1"
    by code_simp
  have "getActiveUsersInNote ex_crowd ''doc9'' = [] \<and> getUsersInNote ex_crowd ''doc9'' = []"
    using roster_total [of ex_crowd "''doc9''"] absent by blast
  moreover have "getActiveUsersInNote ex_crowd ''doc1'' =
       [[(''userId'', JStr ''u2''), (''userName'', JStr ''Bob''), (''color'', JStr ''#4ECDC4'')],
        [(''userId'', JStr ''u3''), (''userName'', JStr ''Cy''), (''color'', JStr ''#45B7D1'')]]
     \<and> getUsersInNote ex_crowd ''doc1'' = [bob_in_doc1, cy_in_doc1]"
    using roster_total [of ex_crowd "''doc1''"]
    by (simp add: members a b c bob_in_doc1_def cy_in_doc1_def)
  ultimately show ?thesis
    using absent members a by simp
qed

section \<open>Rooms whose last member has gone\<close>

lemma handleNoteJoin_keeps_entry:
  "has_room s n' \<Longrightarrow> has_room (handleNoteJoin s sid n now) n'"
  by (simp add: has_room_def handleNoteJoin_def Let_def socket_to_emit_fields socket_emit_fields
      socket_join_fields map_get_set split: option.splits)

lemma cleanup_entry_keeps_entry:
  "has_room (cleanup_entry T now e s) n' = has_room s n'"
proof -
  have "has_room (s\<lparr>connectedUsers := cu\<rparr>) n' = has_room s n'" for cu
    by (simp add: has_room_def)
  then show ?thesis
    by (simp add: cleanup_entry_def Let_def has_room_room_delete split: option.splits)
qed

lemma cleanup_keeps_entry:
  "has_room (fold (cleanup_entry T now) es s) n' = has_room s n'"
  by (induction es arbitrary: s) (simp_all add: cleanup_entry_keeps_entry)

lemma handleNoteLeave_has_room: "has_room (handleNoteLeave s sid n') n = has_room s n"
  unfolding has_room_def handleNoteLeave_noteRooms
  by (simp add: room_delete_def map_get_set split: option.splits)

lemma handleDisconnect_has_room: "has_room (handleDisconnect s sid) n = has_room s n"
  unfolding has_room_def handleDisconnect_noteRooms
  by (simp add: room_delete_def map_get_set split: option.splits)

lemma step_keeps_entry:
  assumes "has_room s n"
  shows "has_room (step s e) n"
proof (cases e)
  case (Join sid n' now)
  with assms show ?thesis
    by (simp add: handleNoteJoin_keeps_entry)
next
  case (Leave sid n')
  with assms show ?thesis
    by (simp add: handleNoteLeave_has_room)
next
  case (Disconnect sid)
  have "has_room (socket_leave_all sid s) n"
    using assms by (simp add: has_room_def socket_leave_all_def)
  with Disconnect show ?thesis
    by (simp add: handleDisconnect_has_room)
next
  case (Sweep T now)
  with assms show ?thesis
    by (simp add: cleanupInactiveConnections_def cleanup_keeps_entry)
qed (use assms in \<open>simp_all add: has_room_def relay_noteRooms handleAuthentication_def
      handleUserActivity_def Let_def socket_emit_fields split: option.splits\<close>)

lemma run_keeps_entry: "has_room s n \<Longrightarrow> has_room (run s es) n"
  unfolding run_def by (induction es arbitrary: s) (simp_all add: step_keeps_entry)

text \<open>
  Claim C7, as the code has it. The room table is never pruned: when
  \<^verbatim>\<open>handleNoteLeave\<close> or \<^verbatim>\<open>handleDisconnect\<close> removes the last member of a room, the
  room keeps its entry in \<open>noteRooms\<close>, now with the empty member set, and no later
  event removes that entry.
\<close>

theorem empty_room_entry_stays:
  "(map_get (connectedUsers s) sid \<noteq> None \<and> map_get (noteRooms s) n = Some [sid] \<longrightarrow>
      map_get (noteRooms (handleNoteLeave s sid n)) n = Some []
      \<and> has_room (run (handleNoteLeave s sid n) es) n)
   \<and> ((\<exists>user. map_get (connectedUsers s) sid = Some user \<and> current_note user = Some n)
        \<and> map_get (noteRooms s) n = Some [sid] \<longrightarrow>
      map_get (noteRooms (handleDisconnect s sid)) n = Some []
      \<and> has_room (run (handleDisconnect s sid) es) n)"
proof -
  have leave: "map_get (noteRooms (handleNoteLeave s sid n)) n = Some []"
    if "map_get (connectedUsers s) sid \<noteq> None" "map_get (noteRooms s) n = Some [sid]"
    using that by (auto simp: handleNoteLeave_noteRooms room_delete_last)
  have disc: "map_get (noteRooms (handleDisconnect s sid)) n = Some []"
    if "map_get (connectedUsers s) sid = Some user" "current_note user = Some n"
       "map_get (noteRooms s) n = Some [sid]" for user
    using that by (simp add: handleDisconnect_noteRooms room_delete_last)
  have "has_room (run t es) n" if "map_get (noteRooms t) n = Some []" for t
    using that by (intro run_keeps_entry) (simp add: has_room_def)
  with leave disc show ?thesis
    by blast
qed


theorem empty_room_entry_stays_witness:
  "map_get (connectedUsers ex_solo) ''A'' \<noteq> None
   \<and> map_get (noteRooms ex_solo) ''doc1'' = Some [''A'']
   \<and> map_get (noteRooms (handleNoteLeave ex_solo ''A'' ''doc1'')) ''doc1'' = Some []
   \<and> has_room (run (handleNoteLeave ex_solo ''A'' ''doc1'') [Disconnect ''A'']) ''doc1''
   \<and> (\<exists>user. map_get (connectedUsers ex_solo) ''A'' = Some user \<and> current_note user = Some ''doc1'')
   \<and> map_get (noteRooms (handleDisconnect ex_solo ''A'')) ''doc1'' = Some []
   \<and> has_room (run (handleDisconnect ex_solo ''A'') [Sweep 0 1000]) ''doc1''"
proof -
  have a: "map_get (connectedUsers ex_solo) ''A'' \<noteq> None"
    by code_simp
  have b: "map_get (noteRooms ex_solo) ''doc1'' = Some [''A'']"
    by code_simp
  have "map_get (connectedUsers ex_solo) ''A'' =
      Some \<lparr>socketId = ''A'', userId = ''u1'', userName = ''Ann'', noteId = Some ''doc1'',
            color = ''#FF6B6B'', lastActivity = 102\<rparr>"
    by code_simp
  then have c: "\<exists>user. map_get (connectedUsers ex_solo) ''A'' = Some user
      \<and> current_note user = Some ''doc1''"
    by (simp add: current_note_def)
  from a b c
    empty_room_entry_stays [of ex_solo "''A''" "''doc1''" "[Disconnect ''A'']"]
    empty_room_entry_stays [of ex_solo "''A''" "''doc1''" "[Sweep 0 1000]"]
  show ?thesis
    by blast
qed

theorem empty_room_entry_counterexample:
  "map_get (noteRooms (run init_hub
      [Authenticate ''A'' ''u1'' ''Ann'' 0 100, Join ''A'' ''doc1'' 102, Leave ''A'' ''doc1'']))
     ''doc1'' = Some []
   \<and> map_get (noteRooms (run init_hub
      [Authenticate ''A'' ''u1'' ''Ann'' 0 100, Join ''A'' ''doc1'' 102, Disconnect ''A'']))
     ''doc1'' = Some []"
  by code_simp

section \<open>The idle sweep\<close>

lemma cleanup_entry_transport:
  "outbox (cleanup_entry T now e s) = outbox s \<and> ioRooms (cleanup_entry T now e s) = ioRooms s"
  by (simp add: cleanup_entry_def Let_def room_delete_fields split: option.splits)

lemma cleanup_fold_transport:
  "outbox (fold (cleanup_entry T now) es s) = outbox s
   \<and> ioRooms (fold (cleanup_entry T now) es s) = ioRooms s"
  by (induction es arbitrary: s) (simp_all add: cleanup_entry_transport)

lemma cleanup_entry_users:
  "connectedUsers (cleanup_entry T now e s) =
     (if now - lastActivity (snd e) > T then map_delete (fst e) (connectedUsers s)
      else connectedUsers s)"
  by (simp add: cleanup_entry_def Let_def room_delete_fields split: option.splits)

lemma cleanup_fold_gone:
  "map_get (connectedUsers s) c = None \<Longrightarrow>
   map_get (connectedUsers (fold (cleanup_entry T now) es s)) c = None"
  by (induction es arbitrary: s) (simp_all add: cleanup_entry_users map_get_delete)

lemma cleanup_fold_deletes:
  "(c, u) \<in> set es \<Longrightarrow> now - lastActivity u > T \<Longrightarrow>
   map_get (connectedUsers (fold (cleanup_entry T now) es s)) c = None"
proof (induction es arbitrary: s)
  case Nil
  then show ?case by simp
next
  case (Cons e es)
  show ?case
  proof (cases "e = (c, u)")
    case True
    with Cons.prems have "map_get (connectedUsers (cleanup_entry T now e s)) c = None"
      by (simp add: cleanup_entry_users map_get_delete)
    then show ?thesis
      by (simp add: cleanup_fold_gone)
  next
    case False
    with Cons show ?thesis by simp
  qed
qed

lemma cleanup_entry_members:
  "set (room_members (cleanup_entry T now e s) n) \<subseteq> set (room_members s n)"
proof -
  have "room_members (s\<lparr>connectedUsers := cu\<rparr>) n = room_members s n" for cu
    by (simp add: room_members_def)
  then show ?thesis
    by (auto simp: cleanup_entry_def Let_def room_members_room_delete set_set_delete
        split: option.splits if_splits)
qed

lemma cleanup_fold_members:
  "set (room_members (fold (cleanup_entry T now) es s) n) \<subseteq> set (room_members s n)"
proof (induction es arbitrary: s)
  case Nil
  then show ?case by simp
next
  case (Cons e es)
  have "set (room_members (fold (cleanup_entry T now) es (cleanup_entry T now e s)) n)
      \<subseteq> set (room_members (cleanup_entry T now e s) n)"
    by (rule Cons.IH)
  also have "\<dots> \<subseteq> set (room_members s n)"
    by (rule cleanup_entry_members)
  finally show ?case by simp
qed

lemma cleanup_entry_removes:
  assumes "now - lastActivity u > T" "current_note u = Some n"
  shows "c \<notin> set (room_members (cleanup_entry T now (c, u) s) n)"
proof -
  have "room_members (s\<lparr>connectedUsers := cu\<rparr>) n = room_members s n" for cu
    by (simp add: room_members_def)
  with assms show ?thesis
    by (simp add: cleanup_entry_def Let_def room_members_room_delete set_set_delete)
qed

lemma cleanup_fold_removes:
  "(c, u) \<in> set es \<Longrightarrow> now - lastActivity u > T \<Longrightarrow> current_note u = Some n \<Longrightarrow>
   c \<notin> set (room_members (fold (cleanup_entry T now) es s) n)"
proof (induction es arbitrary: s)
  case Nil
  then show ?case by simp
next
  case (Cons e es)
  show ?case
  proof (cases "e = (c, u)")
    case True
    have "c \<notin> set (room_members (cleanup_entry T now (c, u) s) n)"
      using Cons.prems by (simp add: cleanup_entry_removes)
    with True show ?thesis
      using cleanup_fold_members [of T now es "cleanup_entry T now e s" n] by auto
  next
    case False
    with Cons show ?thesis by simp
  qed
qed

text \<open>
  Claim C6, as the code has it. For every connection whose last activity is older than
  the threshold, \<^verbatim>\<open>cleanupInactiveConnections\<close> deletes its record from \<open>connectedUsers\<close>
  and removes it from the member set of its current note, but it emits nothing: no
  \<^verbatim>\<open>user:left\<close> reaches the remaining members, and the transport's rooms are untouched.
\<close>

theorem sweep_cleans_tables_silently:
  assumes "map_get (connectedUsers s) c = Some u" and "now - lastActivity u > T"
  shows "map_get (connectedUsers (cleanupInactiveConnections s T now)) c = None
    \<and> (\<forall>n. current_note u = Some n \<longrightarrow>
          c \<notin> set (room_members (cleanupInactiveConnections s T now) n))
    \<and> outbox (cleanupInactiveConnections s T now) = outbox s
    \<and> ioRooms (cleanupInactiveConnections s T now) = ioRooms s"
proof -
  have entry: "(c, u) \<in> set (connectedUsers s)"
    using assms(1) by (simp add: map_get_def map_of_SomeD)
  show ?thesis
    unfolding cleanupInactiveConnections_def
    using cleanup_fold_deletes [OF entry assms(2)] cleanup_fold_removes [OF entry assms(2)]
      cleanup_fold_transport by blast
qed

theorem sweep_cleans_tables_silently_witness:
  "map_get (connectedUsers ex_idle) ''A'' = Some ann_in_doc1
   \<and> 5500 - lastActivity ann_in_doc1 > 1000
   \<and> current_note ann_in_doc1 = Some ''doc1''
   \<and> map_get (connectedUsers (cleanupInactiveConnections ex_idle 1000 5500)) ''A'' = None
   \<and> ''A'' \<notin> set (room_members (cleanupInactiveConnections ex_idle 1000 5500) ''doc1'')
   \<and> outbox (cleanupInactiveConnections ex_idle 1000 5500) = outbox ex_idle"
proof -
  have a: "map_get (connectedUsers ex_idle) ''A'' = Some ann_in_doc1"
    by code_simp
  have b: "5500 - lastActivity ann_in_doc1 > 1000"
    by (simp add: ann_in_doc1_def)
  have c: "current_note ann_in_doc1 = Some ''doc1''"
    by (simp add: ann_in_doc1_def current_note_def)
  from sweep_cleans_tables_silently [OF a b] a b c show ?thesis
    by blast
qed

theorem sweep_notifies_counterexample:
  "room_members ex_idle ''doc1'' = [''A'', ''B'']
   \<and> room_members (cleanupInactiveConnections ex_idle 1000 5500) ''doc1'' = [''B'']
   \<and> map_get (connectedUsers (cleanupInactiveConnections ex_idle 1000 5500)) ''A'' = None
   \<and> outbox (cleanupInactiveConnections ex_idle 1000 5500) = outbox ex_idle
   \<and> map (\<lambda>m. fst (snd m))
        (filter (\<lambda>m. fst m = ''B'') (outbox (cleanupInactiveConnections ex_idle 1000 5500))) =
       [''authenticated'', ''note:users'']"
  by code_simp

section \<open>Leaving a room\<close>


lemma handleNoteLeave_users:
  assumes "map_get (connectedUsers s) sid = Some user"
  shows "connectedUsers (handleNoteLeave s sid n) =
     map_set sid (user\<lparr>noteId := None\<rparr>) (connectedUsers s)"
  using assms
  by (simp add: handleNoteLeave_def Let_def socket_to_emit_fields room_delete_fields
      socket_leave_fields)




section \<open>Joining a room\<close>

lemma handleNoteJoin_users:
  assumes "map_get (connectedUsers s) sid = Some user"
  shows "connectedUsers (handleNoteJoin s sid n now) =
     map_set sid (user\<lparr>noteId := Some n, lastActivity := now\<rparr>) (connectedUsers s)"
  using assms
  by (simp add: handleNoteJoin_def Let_def socket_to_emit_fields socket_emit_fields
      socket_join_fields)

lemma handleNoteJoin_members:
  assumes "map_get (connectedUsers s) sid = Some user"
  shows "room_members (handleNoteJoin s sid n now) n' =
     (if n' = n then set_add sid (room_members s n) else room_members s n')"
  using assms
  by (simp add: handleNoteJoin_def Let_def socket_to_emit_fields socket_emit_fields
      socket_join_fields room_members_def map_get_set has_room_def)

lemma handleNoteJoin_io_members:
  assumes "map_get (connectedUsers s) sid = Some user"
  shows "io_members (handleNoteJoin s sid n now) room =
     (if room = note_room n then set_add sid (io_members s room) else io_members s room)"
  using assms
  by (simp add: handleNoteJoin_def Let_def socket_to_emit_fields socket_emit_fields
      socket_join_def io_members_def map_get_set)

lemma handleNoteJoin_outbox:
  assumes "map_get (connectedUsers s) sid = Some user"
  shows "outbox (handleNoteJoin s sid n now) =
     outbox s @
     map (\<lambda>r. (r, ''user:joined'', Obj (user_tuple user)))
       (filter (\<lambda>r. r \<noteq> sid) (io_members s (note_room n))) @
     [(sid, ''note:users'', Arr (getActiveUsersInNote (handleNoteJoin s sid n now) n))]"
proof -
  have roster: "getActiveUsersInNote (socket_emit a b c (socket_to_emit a' b' c' d' t)) n =
      getActiveUsersInNote t n" for a b c a' b' c' d' t
    by (simp add: getActiveUsersInNote_def room_members_def socket_emit_fields
        socket_to_emit_fields)
  have io: "filter (\<lambda>r. r \<noteq> sid) (io_members (t\<lparr>noteRooms := nr\<rparr>) room) =
      filter (\<lambda>r. r \<noteq> sid) (io_members t room)" for t nr room
    by (simp add: io_members_def)
  have io2: "filter (\<lambda>r. r \<noteq> sid) (io_members (t\<lparr>connectedUsers := cu\<rparr>) room) =
      filter (\<lambda>r. r \<noteq> sid) (io_members t room)" for t cu room
    by (simp add: io_members_def)
  show ?thesis
    using assms
    by (simp add: handleNoteJoin_def Let_def roster socket_to_emit_fields socket_emit_fields
        socket_join_fields io io2 io_members_socket_join user_tuple_def)
qed

lemma roster_after_join:
  assumes "map_get (connectedUsers s) c = Some u" and "c \<notin> set (room_members s n)"
  shows "getActiveUsersInNote (handleNoteJoin s c n now) n =
     getActiveUsersInNote s n @ [user_tuple u]"
proof -
  let ?u' = "u\<lparr>noteId := Some n, lastActivity := now\<rparr>"
  let ?cu' = "map_set c ?u' (connectedUsers s)"
  let ?f = "\<lambda>cu sid. case map_get cu sid of None \<Rightarrow> [] | Some user \<Rightarrow> [user_tuple user]"
  have same: "map (?f ?cu') (room_members s n) = map (?f (connectedUsers s)) (room_members s n)"
    using assms(2) by (intro map_cong) (auto simp: map_get_set)
  have last: "?f ?cu' c = [user_tuple ?u']"
    by (simp add: map_get_set)
  have "getActiveUsersInNote (handleNoteJoin s c n now) n =
      concat (map (?f ?cu') (room_members s n @ [c]))"
    using assms
    by (simp add: getActiveUsersInNote_def collect_users_acc handleNoteJoin_members
        handleNoteJoin_users set_add_def)
  also have "\<dots> = concat (map (?f ?cu') (room_members s n)) @ ?f ?cu' c"
    by simp
  also have "\<dots> = concat (map (?f (connectedUsers s)) (room_members s n)) @ [user_tuple ?u']"
    unfolding same last ..
  finally show ?thesis
    by (simp add: getActiveUsersInNote_def collect_users_acc user_tuple_def)
qed

text \<open>
  Claim C4, as the code has it. When connection \<open>c\<close> joins a room whose members are
  exactly \<open>m1\<close> and \<open>m2\<close>, the roster sent to \<open>c\<close> as \<^verbatim>\<open>note:users\<close> holds the identity
  entries of \<open>m1\<close>, of \<open>m2\<close> and of \<open>c\<close> itself, in that order: the roster is computed after
  \<open>c\<close> has been added to the member set.
\<close>

theorem join_snapshot_includes_joiner:
  assumes "map_get (connectedUsers s) c = Some u"
    and "room_members s n = [m1, m2]"
    and "map_get (connectedUsers s) m1 = Some u1"
    and "map_get (connectedUsers s) m2 = Some u2"
    and "c \<noteq> m1" and "c \<noteq> m2"
  shows "outbox (handleNoteJoin s c n now) =
     outbox s @
     map (\<lambda>r. (r, ''user:joined'', Obj (user_tuple u)))
       (filter (\<lambda>r. r \<noteq> c) (io_members s (note_room n))) @
     [(c, ''note:users'', Arr [user_tuple u1, user_tuple u2, user_tuple u])]"
proof -
  have "c \<notin> set (room_members s n)"
    using assms by simp
  then have "getActiveUsersInNote (handleNoteJoin s c n now) n =
      getActiveUsersInNote s n @ [user_tuple u]"
    using assms(1) by (simp add: roster_after_join)
  also have "getActiveUsersInNote s n = [user_tuple u1, user_tuple u2]"
    using assms by (simp add: getActiveUsersInNote_def)
  finally show ?thesis
    using assms(1) by (simp add: handleNoteJoin_outbox)
qed

theorem join_snapshot_includes_joiner_witness:
  "outbox (handleNoteJoin ex_three ''C'' ''doc1'' 106) =
     outbox ex_three @
     map (\<lambda>r. (r, ''user:joined'', Obj (user_tuple cy_new)))
       (filter (\<lambda>r. r \<noteq> ''C'') (io_members ex_three (note_room ''doc1''))) @
     [(''C'', ''note:users'', Arr [user_tuple ann_in_doc1, user_tuple bob_in_doc1, user_tuple cy_new])]"
proof -
  have c: "map_get (connectedUsers ex_three) ''C'' = Some cy_new"
    by code_simp
  have m: "room_members ex_three ''doc1'' = [''A'', ''B'']"
    by code_simp
  have a: "map_get (connectedUsers ex_three) ''A'' = Some ann_in_doc1"
    by code_simp
  have b: "map_get (connectedUsers ex_three) ''B'' = Some bob_in_doc1"
    by code_simp
  show ?thesis
    by (rule join_snapshot_includes_joiner [OF c m a b]) simp_all
qed

theorem join_snapshot_counterexample:
  "room_members ex_three ''doc1'' = [''A'', ''B'']
   \<and> last (outbox (handleNoteJoin ex_three ''C'' ''doc1'' 106)) =
       (''C'', ''note:users'',
        Arr [[(''userId'', JStr ''u1''), (''userName'', JStr ''Ann''), (''color'', JStr ''#FF6B6B'')],
             [(''userId'', JStr ''u2''), (''userName'', JStr ''Bob''), (''color'', JStr ''#4ECDC4'')],
             [(''userId'', JStr ''u3''), (''userName'', JStr ''Cy''), (''color'', JStr ''#45B7D1'')]])"
  by code_simp

text \<open>
  Claim C1, as the code has it. \<^verbatim>\<open>handleNoteJoin\<close> performs no leave: when a connection
  that is a member of room \<open>r1\<close> joins another room \<open>r2\<close>, the member set of \<open>r1\<close> and the
  transport's room for \<open>r1\<close> are unchanged, so the connection stays a member of \<open>r1\<close> and
  becomes a member of \<open>r2\<close> as well; its current-room field becomes \<open>r2\<close>; and the only
  events emitted are \<^verbatim>\<open>user:joined\<close> to the other sockets of \<open>r2\<close> and the roster of
  \<open>r2\<close> to the joiner, with no \<^verbatim>\<open>user:left\<close> for \<open>r1\<close>.
\<close>

theorem join_keeps_old_room:
  assumes "map_get (connectedUsers s) sid = Some u"
    and "sid \<in> set (room_members s r1)" and "r2 \<noteq> r1"
  shows "room_members (handleNoteJoin s sid r2 now) r1 = room_members s r1
    \<and> sid \<in> set (room_members (handleNoteJoin s sid r2 now) r1)
    \<and> sid \<in> set (room_members (handleNoteJoin s sid r2 now) r2)
    \<and> io_members (handleNoteJoin s sid r2 now) (note_room r1) = io_members s (note_room r1)
    \<and> map_get (connectedUsers (handleNoteJoin s sid r2 now)) sid =
         Some (u\<lparr>noteId := Some r2, lastActivity := now\<rparr>)
    \<and> outbox (handleNoteJoin s sid r2 now) =
         outbox s @
         map (\<lambda>r. (r, ''user:joined'', Obj (user_tuple u)))
           (filter (\<lambda>r. r \<noteq> sid) (io_members s (note_room r2))) @
         [(sid, ''note:users'', Arr (getActiveUsersInNote (handleNoteJoin s sid r2 now) r2))]"
proof -
  have old: "room_members (handleNoteJoin s sid r2 now) r1 = room_members s r1"
    using assms by (simp add: handleNoteJoin_members)
  have new: "sid \<in> set (room_members (handleNoteJoin s sid r2 now) r2)"
    using assms(1) by (simp add: handleNoteJoin_members set_set_add)
  have io: "io_members (handleNoteJoin s sid r2 now) (note_room r1) = io_members s (note_room r1)"
    using assms by (simp add: handleNoteJoin_io_members note_room_inject)
  have rec: "map_get (connectedUsers (handleNoteJoin s sid r2 now)) sid =
         Some (u\<lparr>noteId := Some r2, lastActivity := now\<rparr>)"
    using assms(1) by (simp add: handleNoteJoin_users map_get_set)
  show ?thesis
    using old new io rec assms(2) handleNoteJoin_outbox [OF assms(1)] by simp
qed

theorem join_keeps_old_room_witness:
  "map_get (connectedUsers ex_pair) ''A'' = Some ann_in_doc1
   \<and> ''A'' \<in> set (room_members ex_pair ''doc1'')
   \<and> ''doc2'' \<noteq> ''doc1''
   \<and> room_members (handleNoteJoin ex_pair ''A'' ''doc2'' 104) ''doc1'' = room_members ex_pair ''doc1''
   \<and> ''A'' \<in> set (room_members (handleNoteJoin ex_pair ''A'' ''doc2'' 104) ''doc2'')
   \<and> map_get (connectedUsers (handleNoteJoin ex_pair ''A'' ''doc2'' 104)) ''A'' =
        Some (ann_in_doc1\<lparr>noteId := Some ''doc2'', lastActivity := 104\<rparr>)"
proof -
  have a: "map_get (connectedUsers ex_pair) ''A'' = Some ann_in_doc1"
    by code_simp
  have b: "''A'' \<in> set (room_members ex_pair ''doc1'')"
    by code_simp
  have c: "''doc2'' \<noteq> ''doc1''"
    by simp
  from join_keeps_old_room [OF a b c, of 104] a b c show ?thesis
    by blast
qed

theorem join_keeps_old_room_counterexample:
  "room_members ex_pair ''doc1'' = [''A'', ''B'']
   \<and> room_members (handleNoteJoin ex_pair ''A'' ''doc2'' 104) ''doc1'' = [''A'', ''B'']
   \<and> room_members (handleNoteJoin ex_pair ''A'' ''doc2'' 104) ''doc2'' = [''A'']
   \<and> outbox (handleNoteJoin ex_pair ''A'' ''doc2'' 104) =
       outbox ex_pair @
         [(''A'', ''note:users'',
           Arr [[(''userId'', JStr ''u1''), (''userName'', JStr ''Ann''),
                 (''color'', JStr ''#FF6B6B'')]])]"
  by code_simp

section \<open>Relaying collaboration events\<close>

















section \<open>Members of rooms and the connection table\<close>

lemma members_registeredD:
  "members_registered s \<Longrightarrow> sid \<in> set (room_members s n) \<Longrightarrow>
   \<exists>u. map_get (connectedUsers s) sid = Some u \<and> current_note u = Some n"
  by (simp add: members_registered_def)

lemma members_registeredI:
  "(\<And>n sid. sid \<in> set (room_members t n) \<Longrightarrow>
      \<exists>u. map_get (connectedUsers t) sid = Some u \<and> current_note u = Some n) \<Longrightarrow>
   members_registered t"
  by (simp add: members_registered_def)

lemma current_note_lastActivity: "current_note (u\<lparr>lastActivity := t\<rparr>) = current_note u"
  by (simp add: current_note_def)

lemma current_note_Some: "current_note u = Some n \<longleftrightarrow> noteId u = Some n \<and> n \<noteq> []"
  by (auto simp: current_note_def split: option.splits)

text \<open>A touch of the activity stamp keeps the invariant.\<close>

lemma touch_inv:
  assumes "members_registered s" and "map_get (connectedUsers s) sid = Some u"
    and "connectedUsers t = map_set sid (u\<lparr>lastActivity := now\<rparr>) (connectedUsers s)"
    and "noteRooms t = noteRooms s"
  shows "members_registered t"
proof (rule members_registeredI)
  fix n x
  assume "x \<in> set (room_members t n)"
  then have "x \<in> set (room_members s n)"
    using assms(4) by (simp add: room_members_def)
  then obtain v where v: "map_get (connectedUsers s) x = Some v" "current_note v = Some n"
    using assms(1) by (blast dest: members_registeredD)
  show "\<exists>u. map_get (connectedUsers t) x = Some u \<and> current_note u = Some n"
  proof (cases "x = sid")
    case True
    with v assms(2) have "v = u" by simp
    with True v show ?thesis
      by (simp add: assms(3) map_get_set current_note_lastActivity)
  next
    case False
    with v show ?thesis
      by (simp add: assms(3) map_get_set)
  qed
qed

lemma same_tables_inv:
  assumes "members_registered s" and "connectedUsers t = connectedUsers s"
    and "noteRooms t = noteRooms s"
  shows "members_registered t"
  using assms by (simp add: members_registered_def room_members_def)

text \<open>Dropping a connection's record together with its place in its current room.\<close>

lemma drop_inv:
  assumes inv: "members_registered s"
    and users: "connectedUsers t = map_delete c (connectedUsers s)"
    and rooms: "\<And>n. set (room_members t n) \<subseteq> set (room_members s n)"
    and gone: "\<And>n u. map_get (connectedUsers s) c = Some u \<Longrightarrow> current_note u = Some n \<Longrightarrow>
        c \<notin> set (room_members t n)"
  shows "members_registered t"
proof (rule members_registeredI)
  fix n x
  assume x: "x \<in> set (room_members t n)"
  then have "x \<in> set (room_members s n)"
    using rooms by blast
  then obtain v where v: "map_get (connectedUsers s) x = Some v" "current_note v = Some n"
    using inv by (blast dest: members_registeredD)
  have "x \<noteq> c"
  proof
    assume "x = c"
    with v have "c \<notin> set (room_members t n)"
      by (intro gone) simp_all
    with x \<open>x = c\<close> show False by simp
  qed
  with v show "\<exists>u. map_get (connectedUsers t) x = Some u \<and> current_note u = Some n"
    by (simp add: users map_get_delete)
qed

lemma handleAuthentication_inv:
  assumes "members_registered s" and "map_get (connectedUsers s) sid = None"
  shows "members_registered (handleAuthentication s sid uid uname pick now)"
proof (rule members_registeredI)
  let ?t = "handleAuthentication s sid uid uname pick now"
  fix n x
  assume "x \<in> set (room_members ?t n)"
  then have "x \<in> set (room_members s n)"
    by (simp add: handleAuthentication_def Let_def room_members_def socket_emit_fields)
  then obtain v where v: "map_get (connectedUsers s) x = Some v" "current_note v = Some n"
    using assms(1) by (blast dest: members_registeredD)
  with assms(2) have "x \<noteq> sid" by auto
  with v show "\<exists>u. map_get (connectedUsers ?t) x = Some u \<and> current_note u = Some n"
    by (simp add: handleAuthentication_def Let_def socket_emit_fields map_get_set)
qed

lemma handleNoteJoin_inv:
  assumes inv: "members_registered s" and ok: "client_ok s (Join sid n now)"
  shows "members_registered (handleNoteJoin s sid n now)"
proof (cases "map_get (connectedUsers s) sid")
  case None
  then show ?thesis
    using inv by (simp add: handleNoteJoin_def)
next
  case (Some u)
  let ?t = "handleNoteJoin s sid n now"
  from ok Some have n: "n \<noteq> []" and free: "noteId u = None \<or> noteId u = Some n"
    by simp_all
  show ?thesis
  proof (rule members_registeredI)
    fix n' x
    assume x: "x \<in> set (room_members ?t n')"
    show "\<exists>v. map_get (connectedUsers ?t) x = Some v \<and> current_note v = Some n'"
    proof (cases "x = sid")
      case True
      have "n' = n"
      proof (rule ccontr)
        assume "n' \<noteq> n"
        with x True have "sid \<in> set (room_members s n')"
          by (simp add: handleNoteJoin_members [OF Some])
        then have "current_note u = Some n'"
          using inv Some by (auto dest: members_registeredD)
        with free \<open>n' \<noteq> n\<close> show False
          by (auto simp: current_note_Some)
      qed
      with True n show ?thesis
        by (simp add: handleNoteJoin_users [OF Some] map_get_set current_note_Some)
    next
      case False
      with x have "x \<in> set (room_members s n')"
        by (simp add: handleNoteJoin_members [OF Some] set_set_add split: if_splits)
      then obtain v where "map_get (connectedUsers s) x = Some v" "current_note v = Some n'"
        using inv by (blast dest: members_registeredD)
      with False show ?thesis
        by (simp add: handleNoteJoin_users [OF Some] map_get_set)
    qed
  qed
qed

lemma handleNoteLeave_members:
  assumes "map_get (connectedUsers s) sid = Some user"
  shows "room_members (handleNoteLeave s sid n) n' =
     (if n' = n then set_delete sid (room_members s n) else room_members s n')"
proof -
  have "room_members (handleNoteLeave s sid n) n' = room_members (room_delete n sid s) n'"
    using assms by (simp add: room_members_def handleNoteLeave_noteRooms)
  then show ?thesis
    by (simp add: room_members_room_delete)
qed

lemma handleNoteLeave_inv:
  assumes inv: "members_registered s" and ok: "client_ok s (Leave sid n)"
  shows "members_registered (handleNoteLeave s sid n)"
proof (cases "map_get (connectedUsers s) sid")
  case None
  then show ?thesis
    using inv by (simp add: handleNoteLeave_def)
next
  case (Some u)
  let ?t = "handleNoteLeave s sid n"
  from ok Some have free: "noteId u = None \<or> noteId u = Some n"
    by simp
  show ?thesis
  proof (rule members_registeredI)
    fix n' x
    assume x: "x \<in> set (room_members ?t n')"
    then have old: "x \<in> set (room_members s n')"
      by (simp add: handleNoteLeave_members [OF Some] set_set_delete split: if_splits)
    then obtain v where v: "map_get (connectedUsers s) x = Some v" "current_note v = Some n'"
      using inv by (blast dest: members_registeredD)
    have "x \<noteq> sid"
    proof
      assume "x = sid"
      with v Some have "current_note u = Some n'" by simp
      with free have "n' = n"
        by (auto simp: current_note_Some)
      with x \<open>x = sid\<close> show False
        by (simp add: handleNoteLeave_members [OF Some] set_set_delete)
    qed
    with v show "\<exists>v. map_get (connectedUsers ?t) x = Some v \<and> current_note v = Some n'"
      by (simp add: handleNoteLeave_users [OF Some] map_get_set)
  qed
qed

lemma handleDisconnect_members:
  "room_members (handleDisconnect s sid) n =
     (case map_get (connectedUsers s) sid of
        None \<Rightarrow> room_members s n
      | Some user \<Rightarrow>
          (case current_note user of
             None \<Rightarrow> room_members s n
           | Some n' \<Rightarrow> if n = n' then set_delete sid (room_members s n) else room_members s n))"
proof -
  have "room_members (handleDisconnect s sid) n =
     (case map_get (connectedUsers s) sid of
        None \<Rightarrow> room_members s n
      | Some user \<Rightarrow>
          (case current_note user of
             None \<Rightarrow> room_members s n
           | Some n' \<Rightarrow> room_members (room_delete n' sid s) n))"
    by (simp add: room_members_def handleDisconnect_noteRooms split: option.splits)
  then show ?thesis
    by (simp add: room_members_room_delete split: option.splits)
qed

lemma handleDisconnect_inv:
  assumes "members_registered s"
  shows "members_registered (handleDisconnect s sid)"
  by (rule drop_inv [OF assms, where c = sid])
     (auto simp: handleDisconnect_users handleDisconnect_members set_set_delete
        split: option.splits)

lemma cleanup_entry_inv:
  assumes "members_registered t" and "map_get (connectedUsers t) (fst e) = Some (snd e)"
  shows "members_registered (cleanup_entry T now e t)"
proof (cases "now - lastActivity (snd e) > T")
  case True
  show ?thesis
  proof (rule drop_inv [OF assms(1), where c = "fst e"])
    show "connectedUsers (cleanup_entry T now e t) = map_delete (fst e) (connectedUsers t)"
      using True by (simp add: cleanup_entry_users)
  next
    fix n
    show "set (room_members (cleanup_entry T now e t) n) \<subseteq> set (room_members t n)"
      by (rule cleanup_entry_members)
  next
    fix n u
    assume "map_get (connectedUsers t) (fst e) = Some u" and n: "current_note u = Some n"
    with assms(2) have "e = (fst e, u)"
      by (simp add: prod_eq_iff)
    then show "fst e \<notin> set (room_members (cleanup_entry T now e t) n)"
      using cleanup_entry_removes [OF _ n, of T now "fst e" t] True by (metis snd_conv)
  qed
next
  case False
  with assms(1) show ?thesis
    by (simp add: cleanup_entry_def)
qed

lemma cleanup_fold_inv:
  assumes "members_registered t" and "distinct (map fst es)"
    and "\<forall>e \<in> set es. map_get (connectedUsers t) (fst e) = Some (snd e)"
  shows "members_registered (fold (cleanup_entry T now) es t)"
  using assms
proof (induction es arbitrary: t)
  case Nil
  then show ?case by simp
next
  case (Cons e es)
  let ?t = "cleanup_entry T now e t"
  have inv: "members_registered ?t"
    using Cons.prems by (simp add: cleanup_entry_inv)
  have rest: "map_get (connectedUsers ?t) (fst e') = Some (snd e')" if "e' \<in> set es" for e'
  proof -
    from Cons.prems(2) have "fst e \<notin> fst ` set es"
      by simp
    with that have "fst e' \<noteq> fst e"
      by (metis imageI)
    moreover from that Cons.prems(3) have "map_get (connectedUsers t) (fst e') = Some (snd e')"
      by simp
    ultimately show ?thesis
      by (simp add: cleanup_entry_users map_get_delete)
  qed
  have "members_registered (fold (cleanup_entry T now) es ?t)"
    using inv Cons.prems(2) rest by (intro Cons.IH) simp_all
  then show ?case by simp
qed

lemma cleanupInactiveConnections_inv:
  assumes "members_registered s" and "keys_distinct s"
  shows "members_registered (cleanupInactiveConnections s T now)"
  unfolding cleanupInactiveConnections_def
proof (rule cleanup_fold_inv [OF assms(1)])
  show "distinct (map fst (connectedUsers s))"
    using assms(2) by (simp add: keys_distinct_def)
  then show "\<forall>e \<in> set (connectedUsers s). map_get (connectedUsers s) (fst e) = Some (snd e)"
    by (simp add: map_get_def)
qed

lemma keys_distinct_set: "distinct (map fst m) \<Longrightarrow> distinct (map fst (map_set k v m))"
  by (simp add: map_set_def distinct_update)

lemma keys_distinct_delete: "distinct (map fst m) \<Longrightarrow> distinct (map fst (map_delete k m))"
  by (simp add: map_delete_def distinct_delete)

lemma cleanup_fold_keys:
  "distinct (map fst (connectedUsers t)) \<Longrightarrow>
   distinct (map fst (connectedUsers (fold (cleanup_entry T now) es t)))"
  by (induction es arbitrary: t) (simp_all add: cleanup_entry_users keys_distinct_delete)

lemma handleUserActivity_eq:
  "map_get (connectedUsers s) sid = Some u \<Longrightarrow>
   handleUserActivity s sid now =
     s\<lparr>connectedUsers := map_set sid (u\<lparr>lastActivity := now\<rparr>) (connectedUsers s)\<rparr>"
  by (simp add: handleUserActivity_def)

lemma handleAuthentication_users:
  "connectedUsers (handleAuthentication s sid uid uname pick now) =
     map_set sid \<lparr>socketId = sid, userId = uid, userName = uname, noteId = None,
                  color = assignUserColor pick, lastActivity = now\<rparr> (connectedUsers s)"
  by (simp add: handleAuthentication_def Let_def socket_emit_fields)

lemma step_keys_distinct:
  assumes "keys_distinct s"
  shows "keys_distinct (step s e)"
proof (cases e)
  case (Authenticate sid uid uname pick now)
  with assms show ?thesis
    by (simp add: keys_distinct_def handleAuthentication_users keys_distinct_set)
next
  case (Join sid n now)
  with assms show ?thesis
    by (simp add: keys_distinct_def handleNoteJoin_def Let_def socket_to_emit_fields
        socket_emit_fields socket_join_fields keys_distinct_set split: option.splits)
next
  case (Leave sid n)
  with assms show ?thesis
    by (simp add: keys_distinct_def handleNoteLeave_def Let_def socket_to_emit_fields
        room_delete_fields socket_leave_fields keys_distinct_set split: option.splits)
next
  case (NoteUpdate sid d now)
  with assms show ?thesis
    by (simp add: keys_distinct_def handleNoteUpdate_users keys_distinct_set
        split: option.splits)
next
  case (Cursor sid d)
  with assms show ?thesis
    by (simp add: keys_distinct_def relay_users)
next
  case (Selection sid d)
  with assms show ?thesis
    by (simp add: keys_distinct_def relay_users)
next
  case (Typing sid d)
  with assms show ?thesis
    by (simp add: keys_distinct_def relay_users)
next
  case (Active sid now)
  with assms show ?thesis
    by (simp add: keys_distinct_def handleUserActivity_def keys_distinct_set
        split: option.splits)
next
  case (Disconnect sid)
  with assms show ?thesis
    by (simp add: keys_distinct_def handleDisconnect_users keys_distinct_delete
        socket_leave_all_def)
next
  case (Sweep T now)
  with assms show ?thesis
    by (simp add: keys_distinct_def cleanupInactiveConnections_def cleanup_fold_keys)
qed

lemma step_inv:
  assumes inv: "members_registered s" and keys: "keys_distinct s" and ok: "client_ok s e"
  shows "members_registered (step s e)"
proof (cases e)
  case (Authenticate sid uid uname pick now)
  with inv ok show ?thesis
    by (simp add: handleAuthentication_inv)
next
  case (Join sid n now)
  with inv ok show ?thesis
    by (simp only: step.simps handleNoteJoin_inv)
next
  case (Leave sid n)
  with inv ok show ?thesis
    by (simp only: step.simps handleNoteLeave_inv)
next
  case (NoteUpdate sid d now)
  let ?t = "state_of (handleNoteUpdate s sid d now)"
  show ?thesis
  proof (cases "map_get (connectedUsers s) sid")
    case None
    have "members_registered ?t"
      by (rule same_tables_inv [OF inv]) (simp_all add: handleNoteUpdate_users relay_noteRooms None)
    with NoteUpdate show ?thesis by simp
  next
    case (Some u)
    have "members_registered ?t"
      by (rule touch_inv [OF inv Some, where now = now])
         (simp_all add: handleNoteUpdate_users relay_noteRooms Some)
    with NoteUpdate show ?thesis by simp
  qed
next
  case (Cursor sid d)
  have "members_registered (state_of (handleCursorUpdate s sid d))"
    by (rule same_tables_inv [OF inv]) (simp_all add: relay_users relay_noteRooms)
  with Cursor show ?thesis by simp
next
  case (Selection sid d)
  have "members_registered (state_of (handleSelectionUpdate s sid d))"
    by (rule same_tables_inv [OF inv]) (simp_all add: relay_users relay_noteRooms)
  with Selection show ?thesis by simp
next
  case (Typing sid d)
  have "members_registered (state_of (handleTypingIndicator s sid d))"
    by (rule same_tables_inv [OF inv]) (simp_all add: relay_users relay_noteRooms)
  with Typing show ?thesis by simp
next
  case (Active sid now)
  show ?thesis
  proof (cases "map_get (connectedUsers s) sid")
    case None
    with inv Active show ?thesis
      by (simp add: handleUserActivity_def)
  next
    case (Some u)
    have "members_registered (handleUserActivity s sid now)"
      by (rule touch_inv [OF inv Some, where now = now])
         (simp_all add: handleUserActivity_eq [OF Some])
    with Active show ?thesis by simp
  qed
next
  case (Disconnect sid)
  have "members_registered (socket_leave_all sid s)"
    by (rule same_tables_inv [OF inv]) (simp_all add: socket_leave_all_def)
  then have "members_registered (handleDisconnect (socket_leave_all sid s) sid)"
    by (rule handleDisconnect_inv)
  with Disconnect show ?thesis by simp
next
  case (Sweep T now)
  with inv keys show ?thesis
    by (simp add: cleanupInactiveConnections_inv)
qed

lemma run_inv:
  "members_registered s \<Longrightarrow> keys_distinct s \<Longrightarrow> run_ok s es \<Longrightarrow>
   members_registered (run s es)"
proof (induction es arbitrary: s)
  case Nil
  then show ?case by (simp add: run_def)
next
  case (Cons e es)
  from Cons.prems have "members_registered (step s e)" "keys_distinct (step s e)"
    by (simp_all add: step_inv step_keys_distinct)
  with Cons.prems(3) have "members_registered (run (step s e) es)"
    by (intro Cons.IH) simp_all
  then show ?case by (simp add: run_def)
qed

text \<open>
  Claim C2, as the code has it. From the empty hub, along every sequence of
  authenticate, join, leave, relay, activity, disconnect and sweep events in which the
  clients hold one room at a time (\<open>run_ok\<close>), every socket id in any room's member set
  has a record in \<open>connectedUsers\<close>.
\<close>

theorem members_have_records:
  assumes "run_ok init_hub es"
  shows "\<forall>n sid. sid \<in> set (room_members (run init_hub es) n) \<longrightarrow>
           map_get (connectedUsers (run init_hub es)) sid \<noteq> None"
proof -
  have "members_registered init_hub" "keys_distinct init_hub"
    by (simp_all add: members_registered_def keys_distinct_def init_hub_def room_members_def
        map_get_def)
  then have "members_registered (run init_hub es)"
    using assms by (rule run_inv)
  then show ?thesis
    by (auto dest: members_registeredD)
qed

theorem members_have_records_witness:
  "run_ok init_hub ex_polite
   \<and> ''B'' \<in> set (room_members (run init_hub ex_polite) ''doc1'')
   \<and> map_get (connectedUsers (run init_hub ex_polite)) ''B'' \<noteq> None"
proof -
  have ok: "run_ok init_hub ex_polite"
    by code_simp
  have b: "''B'' \<in> set (room_members (run init_hub ex_polite) ''doc1'')"
    by code_simp
  from members_have_records [OF ok] ok b show ?thesis
    by blast
qed

theorem members_have_records_counterexample:
  "''A'' \<in> set (room_members (run init_hub
       [Authenticate ''A'' ''u1'' ''Ann'' 0 100, Join ''A'' ''doc1'' 102,
        Join ''A'' ''doc2'' 104, Disconnect ''A'']) ''doc1'')
   \<and> map_get (connectedUsers (run init_hub
       [Authenticate ''A'' ''u1'' ''Ann'' 0 100, Join ''A'' ''doc1'' 102,
        Join ''A'' ''doc2'' 104, Disconnect ''A''])) ''A'' = None"
  by code_simp

end
